theory Spec2Isabelle
  imports Main "HOL-Library.Word"
begin

unbundle bit_operations_syntax

section \<open>Machine types\<close>

text \<open>
  The model fixes the 32-bit configuration of \<^verbatim>\<open>sys/fs/syscalls.cpp\<close> (the branch
  \<^verbatim>\<open>UINTPTR_MAX == 0xffffffff\<close>): \<^verbatim>\<open>int\<close>, \<^verbatim>\<open>long\<close>, \<^verbatim>\<open>size_t\<close>, \<^verbatim>\<open>ssize_t\<close> and user
  pointers are 32 bits wide, \<^verbatim>\<open>off_t\<close> is 64 bits wide. Addition and subtraction wrap
  around; \<open>sint\<close> reads a word as a signed value, \<open>unat\<close> as an unsigned one, and
  \<open><s\<close>, \<open>\<le>s\<close> are the signed comparisons.
\<close>

type_synonym c_int = "32 word"
type_synonym c_long = "32 word"
type_synonym c_ulong = "32 word"
type_synonym size_t = "32 word"
type_synonym ssize_t = "32 word"
type_synonym uptr = "32 word"
type_synonym off_t = "64 word"

text \<open>\<^verbatim>\<open>struct iovec\<close>: a user pointer and a length; \<^verbatim>\<open>sizeof(struct iovec)\<close> is 8.\<close>

record iovec =
  iov_base :: uptr
  iov_len :: size_t

definition sizeof_iovec :: size_t where
  "sizeof_iovec = 8"

text \<open>
  Error numbers and protection bits come from \<^verbatim>\<open><errno.h>\<close> and \<^verbatim>\<open><sys/mman.h>\<close>,
  which are not among the sources; the values are those of the Linux ABI. \<^verbatim>\<open>DERR\<close>
  (from \<^verbatim>\<open><debug.h>\<close>) traces an error code and evaluates to it.
\<close>

definition EPERM :: c_int where "EPERM = 1"
definition EFAULT :: c_int where "EFAULT = 14"
definition EINVAL :: c_int where "EINVAL = 22"

definition PROT_READ :: c_int where "PROT_READ = 1"
definition PROT_WRITE :: c_int where "PROT_WRITE = 2"

definition DERR :: "c_int \<Rightarrow> c_int" where
  "DERR x = x"

section \<open>External collaborators\<close>

text \<open>The operations behind the wrappers, named by the call and its arguments.\<close>

datatype kcall =
    Chdir uptr
  | Faccessat c_int uptr c_int c_int
  | Fchmodat c_int uptr "32 word" c_int
  | Fchownat c_int uptr "32 word" "32 word" c_int
  | Fcntl c_int c_int uptr
  | Fstat c_int uptr
  | Fstatat c_int uptr uptr c_int
  | Fstatfs c_int uptr
  | Getcwd uptr size_t
  | Getdents c_int uptr size_t
  | Ioctl c_int c_int uptr
  | Lseek c_int off_t c_int
  | Mkdirat c_int uptr "32 word"
  | Mknodat c_int uptr "32 word" "64 word"
  | Mount uptr uptr uptr c_ulong uptr
  | Openat c_int uptr c_int c_int
  | Pipe2 uptr c_int
  | Renameat c_int uptr c_int uptr
  | Rmdir uptr
  | Stat uptr uptr
  | Statfs uptr uptr
  | Symlinkat uptr c_int uptr
  | Umount2 uptr c_int
  | Unlinkat c_int uptr c_int
  | Utimensat c_int uptr uptr c_int
  | Pread c_int uptr size_t off_t
  | Pwrite c_int uptr size_t off_t
  | Readlinkat c_int uptr uptr size_t
  | Write c_int uptr size_t
  | Preadv c_int "iovec list" off_t
  | Pwritev c_int "iovec list" off_t

text \<open>
  What one invocation of a wrapper does to its surroundings, in order: operations on the
  address-space guard, queries to the validator, calls of the transfer primitive and of
  the underlying operations, and stores to user memory.
\<close>

datatype event =
    Ev_lock
  | Ev_unlock
  | Ev_access_begin
  | Ev_access_end
  | Ev_access_ok uptr size_t c_int
  | Ev_strcheck uptr size_t
  | Ev_address uptr
  | Ev_capable c_int
  | Ev_transfer c_int "iovec list" off_t
  | Ev_call kcall
  | Ev_store_off uptr off_t

text \<open>
  The kernel state a wrapper threads through: the events so far and the state \<open>'e\<close> of
  everything outside this file (file system, drivers), which only the underlying
  operations read and change.
\<close>

record 'e kstate =
  trace :: "event list"
  ext :: 'e

definition enter :: "'e \<Rightarrow> 'e kstate" where
  "enter e = \<lparr>trace = [], ext = e\<rparr>"

definition note_ev :: "event \<Rightarrow> 'e kstate \<Rightarrow> 'e kstate" where
  "note_ev ev s = s\<lparr>trace := trace s @ [ev]\<rparr>"

text \<open>
  Constants of headers that are not among the sources (\<^verbatim>\<open><limits.h>\<close>, \<^verbatim>\<open><fcntl.h>\<close>,
  \<^verbatim>\<open><ioctl.h>\<close>, \<^verbatim>\<open><task.h>\<close>, the sizes of \<^verbatim>\<open>struct flock\<close>, \<^verbatim>\<open>struct stat\<close>,
  \<^verbatim>\<open>struct statfs\<close> and \<^verbatim>\<open>struct timespec\<close>) are parameters.
\<close>

record abi =
  IOV_MAX :: c_int
  PATH_MAX :: size_t
  AT_FDCWD :: c_int
  AT_SYMLINK_NOFOLLOW :: c_int
  CAP_ADMIN :: c_int
  F_GETLK :: c_int
  F_SETLK :: c_int
  F_SETLKW :: c_int
  IOC_DIR :: "c_int \<Rightarrow> c_int"
  IOC_SIZE :: "c_int \<Rightarrow> size_t"
  IOC_READ :: c_int
  IOC_WRITE :: c_int
  sizeof_flock :: size_t
  sizeof_stat :: size_t
  sizeof_statfs :: size_t
  sizeof_timespec :: size_t
  assert_enabled :: bool

text \<open>
  The environment of one invocation: the constants above, the outcome of acquiring the
  guard, the validator's answers, the descriptor array in user memory, and the
  underlying operations as state transformers on \<open>'e\<close>. All results of the underlying
  operations but \<^verbatim>\<open>lseek\<close>'s are 32 bits wide in this configuration.
\<close>

record 'e env = abi +
  lock_result :: c_int
  access_begin_result :: c_int
  access_ok :: "uptr \<Rightarrow> size_t \<Rightarrow> c_int \<Rightarrow> bool"
  strcheck :: "uptr \<Rightarrow> size_t \<Rightarrow> bool"
  address_ok :: "uptr \<Rightarrow> bool"
  capable :: "c_int \<Rightarrow> bool"
  user_iov :: "uptr \<Rightarrow> iovec"
  kernel :: "kcall \<Rightarrow> 'e \<Rightarrow> c_int \<times> 'e"
  kernel_lseek :: "c_int \<Rightarrow> off_t \<Rightarrow> c_int \<Rightarrow> 'e \<Rightarrow> off_t \<times> 'e"

subsection \<open>Validator\<close>

definition u_access_ok ::
  "'e env \<Rightarrow> uptr \<Rightarrow> size_t \<Rightarrow> c_int \<Rightarrow> 'e kstate \<Rightarrow> bool \<times> 'e kstate" where
  "u_access_ok env p n prot s = (access_ok env p n prot, note_ev (Ev_access_ok p n prot) s)"

definition u_strcheck :: "'e env \<Rightarrow> uptr \<Rightarrow> size_t \<Rightarrow> 'e kstate \<Rightarrow> bool \<times> 'e kstate" where
  "u_strcheck env p n s = (strcheck env p n, note_ev (Ev_strcheck p n) s)"

definition u_address :: "'e env \<Rightarrow> uptr \<Rightarrow> 'e kstate \<Rightarrow> bool \<times> 'e kstate" where
  "u_address env p s = (address_ok env p, note_ev (Ev_address p) s)"

definition task_capable :: "'e env \<Rightarrow> c_int \<Rightarrow> 'e kstate \<Rightarrow> bool \<times> 'e kstate" where
  "task_capable env c s = (capable env c, note_ev (Ev_capable c) s)"

subsection \<open>Underlying operations\<close>

definition call :: "'e env \<Rightarrow> kcall \<Rightarrow> 'e kstate \<Rightarrow> c_int \<times> 'e kstate" where
  "call env k s =
     (case kernel env k (ext s) of
        (r, e') \<Rightarrow> (r, \<lparr>trace = trace s @ [Ev_call k], ext = e'\<rparr>))"

definition lseek :: "'e env \<Rightarrow> c_int \<Rightarrow> off_t \<Rightarrow> c_int \<Rightarrow> 'e kstate \<Rightarrow> off_t \<times> 'e kstate" where
  "lseek env fd off whence s =
     (case kernel_lseek env fd off whence (ext s) of
        (r, e') \<Rightarrow> (r, \<lparr>trace = trace s @ [Ev_call (Lseek fd off whence)], ext = e'\<rparr>))"

definition preadv :: "'e env \<Rightarrow> c_int \<Rightarrow> iovec list \<Rightarrow> off_t \<Rightarrow> 'e \<Rightarrow> ssize_t \<times> 'e" where
  "preadv env fd iov off = kernel env (Preadv fd iov off)"

definition pwritev :: "'e env \<Rightarrow> c_int \<Rightarrow> iovec list \<Rightarrow> off_t \<Rightarrow> 'e \<Rightarrow> ssize_t \<times> 'e" where
  "pwritev env fd iov off = kernel env (Pwritev fd iov off)"

section \<open>The scatter/gather transfer: \<^verbatim>\<open>do_iov\<close>\<close>

text \<open>
  The transfer primitive \<^verbatim>\<open>fn\<close> is a parameter: given the descriptor, the local batch
  (\<^verbatim>\<open>iov.data()\<close> with its \<open>d\<close> entries, here a list) and the offset, it returns a
  byte count or a negative error and changes the outside state.
\<close>

type_synonym 'e transfer_fn = "c_int \<Rightarrow> iovec list \<Rightarrow> off_t \<Rightarrow> 'e \<Rightarrow> ssize_t \<times> 'e"

definition transfer ::
  "'e transfer_fn \<Rightarrow> c_int \<Rightarrow> iovec list \<Rightarrow> off_t \<Rightarrow> 'e kstate \<Rightarrow> ssize_t \<times> 'e kstate" where
  "transfer fn fd iov off s =
     (case fn fd iov off (ext s) of
        (r, e') \<Rightarrow> (r, \<lparr>trace = trace s @ [Ev_transfer fd iov off], ext = e'\<rparr>))"

text \<open>\<^verbatim>\<open>uiov[i]\<close>: the entry at index \<open>i\<close> of the user array that starts at \<open>uiov\<close>.\<close>

definition uiov_at :: "'e env \<Rightarrow> uptr \<Rightarrow> nat \<Rightarrow> iovec" where
  "uiov_at env uiov i = user_iov env (uiov + sizeof_iovec * of_nat i)"

text \<open>
  The inner \<^verbatim>\<open>for\<close> loop over the indices of one batch, with the local array \<open>iov\<close>
  (its \<open>d\<close> filled entries) and the length \<open>l\<close> requested so far. \<open>None\<close> is the early
  return of \<^verbatim>\<open>-EFAULT\<close>.
\<close>

primrec iov_for ::
  "'e env \<Rightarrow> c_int \<Rightarrow> uptr \<Rightarrow> nat list \<Rightarrow> iovec list \<Rightarrow> ssize_t \<Rightarrow> 'e kstate
    \<Rightarrow> (iovec list \<times> ssize_t) option \<times> 'e kstate" where
  "iov_for env prot uiov [] iov l s = (Some (iov, l), s)"
| "iov_for env prot uiov (i # is) iov l s =
     (if iov_base (uiov_at env uiov i) = 0 then iov_for env prot uiov is iov l s
      else case u_access_ok env (iov_base (uiov_at env uiov i)) (iov_len (uiov_at env uiov i)) prot s of
        (ok, s1) \<Rightarrow>
          if \<not> ok then (None, s1)
          else iov_for env prot uiov is (iov @ [uiov_at env uiov i])
                 (l + iov_len (uiov_at env uiov i)) s1)"

text \<open>A failed \<^verbatim>\<open>assert\<close> stops the kernel; it is the only fault of this file.\<close>

datatype fault = Assertion_failed

text \<open>One pass through the body of \<^verbatim>\<open>while (1)\<close>: it returns, or goes round again.\<close>

datatype 'e iov_step =
    Done "fault + ssize_t" "'e kstate"
  | Again uptr c_int off_t ssize_t "'e kstate"

definition iov_body ::
  "'e env \<Rightarrow> c_int \<Rightarrow> 'e transfer_fn \<Rightarrow> c_int \<Rightarrow> uptr \<Rightarrow> c_int \<Rightarrow> off_t \<Rightarrow> ssize_t
    \<Rightarrow> 'e kstate \<Rightarrow> 'e iov_step" where
  "iov_body env fd fn prot uiov count offset ret s =
     (let c = min count 16 in
      case iov_for env prot uiov [0..<unat c] [] 0 s of
        (None, s1) \<Rightarrow> Done (Inr (DERR (- EFAULT))) s1
      | (Some (iov, l), s1) \<Rightarrow>
          (case transfer fn fd iov offset s1 of
             (r, s2) \<Rightarrow>
               if r = 0 then Done (Inr ret) s2
               else if r <s 0 then (if ret \<noteq> 0 then Done (Inr ret) s2 else Done (Inr r) s2)
               else if r <s l then Done (Inr (ret + r)) s2
               else if assert_enabled env \<and> r \<noteq> l then Done (Inl Assertion_failed) s2
               else if count - c = 0 then Done (Inr (ret + r)) s2
               else Again (uiov + sizeof_iovec * c) (count - c)
                      (if 0 \<le>s offset then offset + scast r else offset) (ret + r) s2))"

partial_function (option) iov_loop ::
  "'e env \<Rightarrow> c_int \<Rightarrow> 'e transfer_fn \<Rightarrow> c_int \<Rightarrow> uptr \<Rightarrow> c_int \<Rightarrow> off_t \<Rightarrow> ssize_t
    \<Rightarrow> 'e kstate \<Rightarrow> ((fault + ssize_t) \<times> 'e kstate) option" where
  "iov_loop env fd fn prot uiov count offset ret s =
     (case iov_body env fd fn prot uiov count offset ret s of
        Done v s' \<Rightarrow> Some (v, s')
      | Again uiov' count' offset' ret' s' \<Rightarrow> iov_loop env fd fn prot uiov' count' offset' ret' s')"

declare iov_loop.simps [code]

text \<open>
  Modelled from the spec: the class \<^verbatim>\<open>interruptible_lock\<close> is declared outside the
  sources. Its \<^verbatim>\<open>lock()\<close> either returns a negative interruption error with the guard
  not held, or holds the guard; the guard is released when the scope of the lock object
  ends, on every return. A failed assertion does not return.
\<close>

definition unlock_on_return ::
  "((fault + c_int) \<times> 'e kstate) \<Rightarrow> ((fault + c_int) \<times> 'e kstate)" where
  "unlock_on_return x =
     (case x of (Inl f, s) \<Rightarrow> (Inl f, s) | (Inr v, s) \<Rightarrow> (Inr v, note_ev Ev_unlock s))"

definition do_iov ::
  "'e env \<Rightarrow> c_int \<Rightarrow> uptr \<Rightarrow> c_int \<Rightarrow> off_t \<Rightarrow> 'e transfer_fn \<Rightarrow> c_int \<Rightarrow> 'e
    \<Rightarrow> ((fault + ssize_t) \<times> 'e kstate) option" where
  "do_iov env fd uiov count offset fn prot e =
     (if count <s 0 \<or> IOV_MAX env <s count then Some (Inr (DERR (- EINVAL)), enter e)
      else if lock_result env <s 0 then Some (Inr (lock_result env), enter e)
      else case u_access_ok env uiov (sizeof_iovec * count) PROT_READ (note_ev Ev_lock (enter e)) of
        (ok, s1) \<Rightarrow>
          if \<not> ok then Some (unlock_on_return (Inr (DERR (- EFAULT)), s1))
          else map_option unlock_on_return (iov_loop env fd fn prot uiov count offset 0 s1))"

section \<open>The wrappers\<close>

text \<open>
  Modelled from the spec: the class \<^verbatim>\<open>interruptible_lock\<close> and the functions
  \<^verbatim>\<open>u_access_begin\<close> and \<^verbatim>\<open>u_access_end\<close> are declared outside the sources. A wrapper
  body under the lock: \<^verbatim>\<open>lock()\<close> returns a negative interruption error with the guard not
  held, or the guard is held and released when the scope ends, whatever the body returns.
  \<^verbatim>\<open>u_access_begin\<close> pins the address space unless it returns a negative error;
  \<^verbatim>\<open>u_access_end\<close> releases the pin.
\<close>

definition interruptible_lock ::
  "'e env \<Rightarrow> ('e kstate \<Rightarrow> c_int \<times> 'e kstate) \<Rightarrow> 'e kstate \<Rightarrow> c_int \<times> 'e kstate" where
  "interruptible_lock env body s =
     (if lock_result env <s 0 then (lock_result env, s)
      else case body (note_ev Ev_lock s) of (v, s') \<Rightarrow> (v, note_ev Ev_unlock s'))"

definition u_access_begin :: "'e env \<Rightarrow> 'e kstate \<Rightarrow> c_int \<times> 'e kstate" where
  "u_access_begin env s =
     (if access_begin_result env <s 0 then (access_begin_result env, s)
      else (access_begin_result env, note_ev Ev_access_begin s))"

definition u_access_end :: "'e kstate \<Rightarrow> 'e kstate" where
  "u_access_end s = note_ev Ev_access_end s"

text \<open>\<^verbatim>\<open>!a\<close> and the short-circuit \<^verbatim>\<open>a || b\<close> on validator queries.\<close>

definition negate :: "('s \<Rightarrow> bool \<times> 's) \<Rightarrow> 's \<Rightarrow> bool \<times> 's" where
  "negate a s = (case a s of (x, s1) \<Rightarrow> (\<not> x, s1))"

definition or_else :: "('s \<Rightarrow> bool \<times> 's) \<Rightarrow> ('s \<Rightarrow> bool \<times> 's) \<Rightarrow> 's \<Rightarrow> bool \<times> 's" where
  "or_else a b s = (case a s of (x, s1) \<Rightarrow> if x then (True, s1) else b s1)"

text \<open>\<^verbatim>\<open>if (cond) return DERR(-EFAULT); return rest;\<close>\<close>

definition efault_if ::
  "('e kstate \<Rightarrow> bool \<times> 'e kstate) \<Rightarrow> ('e kstate \<Rightarrow> c_int \<times> 'e kstate) \<Rightarrow> 'e kstate
    \<Rightarrow> c_int \<times> 'e kstate" where
  "efault_if cond rest s =
     (case cond s of (bad, s1) \<Rightarrow> if bad then (DERR (- EFAULT), s1) else rest s1)"

text \<open>\<^verbatim>\<open>(off_t)off0 << 32 | off1\<close>: the conversion of \<^verbatim>\<open>off1\<close> to \<^verbatim>\<open>off_t\<close> extends its sign.\<close>

definition join_off :: "c_long \<Rightarrow> c_long \<Rightarrow> off_t" where
  "join_off off0 off1 = push_bit 32 (scast off0) OR scast off1"









text \<open>
  \<^verbatim>\<open>sc_fcntl\<close>: the first \<^verbatim>\<open>switch\<close> pins the address space for the three locking
  commands and has two early returns; the second releases the pin after \<^verbatim>\<open>fcntl\<close>.
\<close>

definition sc_fcntl :: "'e env \<Rightarrow> c_int \<Rightarrow> c_int \<Rightarrow> uptr \<Rightarrow> 'e \<Rightarrow> c_int \<times> 'e kstate" where
  "sc_fcntl env fd cmd arg e =
     (let locking = (cmd = F_GETLK env \<or> cmd = F_SETLK env \<or> cmd = F_SETLKW env) in
      case (if locking then
              (case u_access_begin env (enter e) of
                 (r, s1) \<Rightarrow>
                   if r <s 0 then (Some r, s1)
                   else case u_access_ok env arg (sizeof_flock env) PROT_WRITE s1 of
                     (ok, s2) \<Rightarrow> if \<not> ok then (Some (DERR (- EFAULT)), s2) else (None, s2))
            else (None, enter e)) of
        (Some r, s) \<Rightarrow> (r, s)
      | (None, s) \<Rightarrow>
          (case call env (Fcntl fd cmd arg) s of
             (ret, s') \<Rightarrow> (ret, if locking then u_access_end s' else s')))"






text \<open>
  \<^verbatim>\<open>sc_ioctl\<close>: the \<^verbatim>\<open>switch\<close> pins the address space when the request's direction is
  \<^verbatim>\<open>_IOC_READ\<close> or \<^verbatim>\<open>_IOC_WRITE\<close>, with two early returns; then the function returns
  \<^verbatim>\<open>ioctl\<close>'s result. The second \<^verbatim>\<open>switch\<close>, which calls \<^verbatim>\<open>u_access_end\<close>, stands after
  that \<^verbatim>\<open>return\<close> and is never executed.
\<close>

definition sc_ioctl :: "'e env \<Rightarrow> c_int \<Rightarrow> c_int \<Rightarrow> uptr \<Rightarrow> 'e \<Rightarrow> c_int \<times> 'e kstate" where
  "sc_ioctl env fd request argp e =
     (case (if IOC_DIR env request = IOC_READ env \<or> IOC_DIR env request = IOC_WRITE env then
              (case u_access_begin env (enter e) of
                 (r, s1) \<Rightarrow>
                   if r <s 0 then (Some r, s1)
                   else case u_access_ok env argp (IOC_SIZE env request)
                               (if IOC_DIR env request = IOC_READ env then PROT_WRITE else PROT_READ) s1 of
                     (ok, s2) \<Rightarrow> if \<not> ok then (Some (DERR (- EFAULT)), s2) else (None, s2))
            else (None, enter e)) of
        (Some r, s) \<Rightarrow> (r, s)
      | (None, s) \<Rightarrow> call env (Ioctl fd request argp) s)"






text \<open>\<^verbatim>\<open>sc_mount\<close>: the capability is checked first; \<^verbatim>\<open>data\<close> is checked only when not null.\<close>

definition sc_mount ::
  "'e env \<Rightarrow> uptr \<Rightarrow> uptr \<Rightarrow> uptr \<Rightarrow> c_ulong \<Rightarrow> uptr \<Rightarrow> 'e \<Rightarrow> c_int \<times> 'e kstate" where
  "sc_mount env dev dir fs flags data e =
     (case task_capable env (CAP_ADMIN env) (enter e) of
        (cap, s0) \<Rightarrow>
          if \<not> cap then (DERR (- EPERM), s0)
          else interruptible_lock env
            (efault_if
               (or_else (negate (u_strcheck env dev (PATH_MAX env)))
                  (or_else (negate (u_strcheck env dir (PATH_MAX env)))
                     (or_else (negate (u_strcheck env fs (PATH_MAX env)))
                        (\<lambda>s. if data \<noteq> 0 then negate (u_address env data) s else (False, s)))))
               (call env (Mount dev dir fs flags data))) s0)"












definition sc_umount2 :: "'e env \<Rightarrow> uptr \<Rightarrow> c_int \<Rightarrow> 'e \<Rightarrow> c_int \<times> 'e kstate" where
  "sc_umount2 env dir flags e =
     (case task_capable env (CAP_ADMIN env) (enter e) of
        (cap, s0) \<Rightarrow>
          if \<not> cap then (DERR (- EPERM), s0)
          else interruptible_lock env
            (efault_if (negate (u_strcheck env dir (PATH_MAX env)))
               (call env (Umount2 dir flags))) s0)"




definition sc_pread :: "'e env \<Rightarrow> c_int \<Rightarrow> uptr \<Rightarrow> size_t \<Rightarrow> off_t \<Rightarrow> 'e \<Rightarrow> ssize_t \<times> 'e kstate" where
  "sc_pread env fd buf len offset e =
     (if offset <s 0 then (DERR (- EINVAL), enter e)
      else interruptible_lock env
        (efault_if (negate (u_access_ok env buf len PROT_WRITE))
           (call env (Pread fd buf len offset))) (enter e))"

definition sc_pwrite :: "'e env \<Rightarrow> c_int \<Rightarrow> uptr \<Rightarrow> size_t \<Rightarrow> off_t \<Rightarrow> 'e \<Rightarrow> ssize_t \<times> 'e kstate" where
  "sc_pwrite env fd buf len offset e =
     (if offset <s 0 then (DERR (- EINVAL), enter e)
      else interruptible_lock env
        (efault_if (negate (u_access_ok env buf len PROT_READ))
           (call env (Pwrite fd buf len offset))) (enter e))"





subsection \<open>Vectored wrappers\<close>

definition sc_readv ::
  "'e env \<Rightarrow> c_int \<Rightarrow> uptr \<Rightarrow> c_int \<Rightarrow> 'e \<Rightarrow> ((fault + ssize_t) \<times> 'e kstate) option" where
  "sc_readv env fd iov count e = do_iov env fd iov count (- 1) (preadv env) PROT_WRITE e"

definition sc_writev ::
  "'e env \<Rightarrow> c_int \<Rightarrow> uptr \<Rightarrow> c_int \<Rightarrow> 'e \<Rightarrow> ((fault + ssize_t) \<times> 'e kstate) option" where
  "sc_writev env fd iov count e = do_iov env fd iov count (- 1) (pwritev env) PROT_READ e"

text \<open>
  \<^verbatim>\<open>sc_preadv\<close> and \<^verbatim>\<open>sc_pwritev\<close>: the 32-bit entry takes the offset as two halves and
  joins them; the text after \<^verbatim>\<open>#endif\<close>, shared with the entry that takes an \<^verbatim>\<open>off_t\<close>, is
  \<open>sc_preadv_off\<close> and \<open>sc_pwritev_off\<close>.
\<close>

definition sc_preadv_off ::
  "'e env \<Rightarrow> c_int \<Rightarrow> uptr \<Rightarrow> c_int \<Rightarrow> off_t \<Rightarrow> 'e \<Rightarrow> ((fault + ssize_t) \<times> 'e kstate) option" where
  "sc_preadv_off env fd iov count offset e =
     (if offset <s 0 then Some (Inr (DERR (- EINVAL)), enter e)
      else do_iov env fd iov count offset (preadv env) PROT_WRITE e)"

definition sc_preadv ::
  "'e env \<Rightarrow> c_int \<Rightarrow> uptr \<Rightarrow> c_int \<Rightarrow> c_long \<Rightarrow> c_long \<Rightarrow> 'e
    \<Rightarrow> ((fault + ssize_t) \<times> 'e kstate) option" where
  "sc_preadv env fd iov count off1 off0 e = sc_preadv_off env fd iov count (join_off off0 off1) e"

definition sc_pwritev_off ::
  "'e env \<Rightarrow> c_int \<Rightarrow> uptr \<Rightarrow> c_int \<Rightarrow> off_t \<Rightarrow> 'e \<Rightarrow> ((fault + ssize_t) \<times> 'e kstate) option" where
  "sc_pwritev_off env fd iov count offset e =
     (if offset <s 0 then Some (Inr (DERR (- EINVAL)), enter e)
      else do_iov env fd iov count offset (pwritev env) PROT_READ e)"

definition sc_pwritev ::
  "'e env \<Rightarrow> c_int \<Rightarrow> uptr \<Rightarrow> c_int \<Rightarrow> c_long \<Rightarrow> c_long \<Rightarrow> 'e
    \<Rightarrow> ((fault + ssize_t) \<times> 'e kstate) option" where
  "sc_pwritev env fd iov count off1 off0 e = sc_pwritev_off env fd iov count (join_off off0 off1) e"

section \<open>Measures on descriptors and traces\<close>

text \<open>
  The notions the properties of \<^verbatim>\<open>do_iov\<close> are stated with: the bytes a batch asks
  for, as a natural number (no wrap-around); the first \<open>n\<close> entries of the user array;
  the sum of the lengths of its entries whose pointer is not null; and whether a transfer
  event carries a batch free of null pointers.
\<close>

definition nonnull :: "iovec \<Rightarrow> bool" where
  "nonnull x = (iov_base x \<noteq> 0)"

definition requested :: "iovec list \<Rightarrow> nat" where
  "requested iov = sum_list (map (\<lambda>x. unat (iov_len x)) iov)"

definition user_entries :: "'e env \<Rightarrow> uptr \<Rightarrow> nat \<Rightarrow> iovec list" where
  "user_entries env uiov n = map (uiov_at env uiov) [0..<n]"

definition nonnull_total :: "'e env \<Rightarrow> uptr \<Rightarrow> nat \<Rightarrow> nat" where
  "nonnull_total env uiov n = requested (filter nonnull (user_entries env uiov n))"

definition no_null_batch :: "event \<Rightarrow> bool" where
  "no_null_batch ev = (case ev of Ev_transfer fd iov off \<Rightarrow> list_all nonnull iov | _ \<Rightarrow> True)"

definition is_transfer :: "event \<Rightarrow> bool" where
  "is_transfer ev = (case ev of Ev_transfer fd iov off \<Rightarrow> True | _ \<Rightarrow> False)"

section \<open>Concrete environments\<close>

text \<open>
  A sample platform and a sample environment on which the model runs. The outside state
  counts the bytes the vectored operations moved. User memory below \<open>0x8000\<close> is
  accessible. The descriptors at \<open>0x1000\<close>, \<open>0x3000\<close> and \<open>0x3008\<close> name four
  bytes at \<open>0x4000\<close>, the one at \<open>0x1080\<close> (index 16 of the array at \<open>0x1000\<close>)
  names four bytes outside the accessible memory, and every other descriptor has a null
  pointer and length 10. The vectored operations and \<^verbatim>\<open>pread\<close> transfer all they are
  asked for, \<^verbatim>\<open>chdir\<close> fails with \<^verbatim>\<open>-ENOENT\<close>, \<^verbatim>\<open>getcwd\<close> returns its buffer,
  \<^verbatim>\<open>lseek\<close> fails with \<^verbatim>\<open>-EINVAL\<close>, and every other operation returns 0.
\<close>

definition sample_abi :: abi where
  "sample_abi =
     \<lparr>IOV_MAX = 1024, PATH_MAX = 4096, AT_FDCWD = - 100, AT_SYMLINK_NOFOLLOW = 256,
      CAP_ADMIN = 1, F_GETLK = 12, F_SETLK = 13, F_SETLKW = 14,
      IOC_DIR = (\<lambda>r. drop_bit 30 r AND 3), IOC_SIZE = (\<lambda>r. drop_bit 16 r AND 16383),
      IOC_READ = 2, IOC_WRITE = 1, sizeof_flock = 24, sizeof_stat = 152,
      sizeof_statfs = 88, sizeof_timespec = 16, assert_enabled = True\<rparr>"

definition sample_iov :: "uptr \<Rightarrow> iovec" where
  "sample_iov a =
     (if a = 0x1000 \<or> a = 0x3000 \<or> a = 0x3008 then \<lparr>iov_base = 0x4000, iov_len = 4\<rparr>
      else if a = 0x1080 then \<lparr>iov_base = 0x9000, iov_len = 4\<rparr>
      else \<lparr>iov_base = 0, iov_len = 10\<rparr>)"

definition sample_kernel :: "kcall \<Rightarrow> nat \<Rightarrow> c_int \<times> nat" where
  "sample_kernel k e =
     (case k of
        Preadv fd iov off \<Rightarrow> (sum_list (map iov_len iov), e + requested iov)
      | Pwritev fd iov off \<Rightarrow> (sum_list (map iov_len iov), e + requested iov)
      | Pread fd buf len off \<Rightarrow> (len, e + unat len)
      | Chdir path \<Rightarrow> (- 2, e)
      | Getcwd buf len \<Rightarrow> (buf, e)
      | _ \<Rightarrow> (0, e))"

definition sample_env :: "nat env" where
  "sample_env =
     abi.extend sample_abi
       (env.fields 0 0 (\<lambda>p n prot. unat p + unat n \<le> 0x8000) (\<lambda>p n. unat p < 0x8000)
          (\<lambda>p. unat p < 0x8000) (\<lambda>c. True) sample_iov sample_kernel
          (\<lambda>fd off whence e. (- 22, e)))"

text \<open>Primitives for the sample runs: a short transfer of three bytes, and a failure.\<close>

definition short_fn :: "nat transfer_fn" where
  "short_fn fd iov off e = (3, e + 3)"

definition failing_fn :: "nat transfer_fn" where
  "failing_fn fd iov off e = (- 9, e)"

text \<open>
  A second environment with a large user memory: everything below \<open>0xC0000000\<close> is
  accessible. The descriptors at \<open>0x1000\<close> and \<open>0x1008\<close> each name the same
  \<open>0x40000000\<close> bytes at \<open>0x40000000\<close>, so together they ask for \<open>2^31\<close> bytes;
  the one at \<open>0x1080\<close> (index 16) names four bytes, and every other descriptor has a
  null pointer. The primitive \<open>capped_fn\<close> transfers at most three bytes of what a batch
  asks for.
\<close>

definition wide_iov :: "uptr \<Rightarrow> iovec" where
  "wide_iov a =
     (if a = 0x1000 \<or> a = 0x1008 then \<lparr>iov_base = 0x40000000, iov_len = 0x40000000\<rparr>
      else if a = 0x1080 then \<lparr>iov_base = 0x40000000, iov_len = 4\<rparr>
      else \<lparr>iov_base = 0, iov_len = 10\<rparr>)"

definition wide_env :: "nat env" where
  "wide_env =
     sample_env\<lparr>access_ok := \<lambda>p n prot. unat p + unat n \<le> 0xC0000000, user_iov := wide_iov\<rparr>"

definition capped_fn :: "nat transfer_fn" where
  "capped_fn fd iov off e =
     (if requested iov < 3 then (of_nat (requested iov), e + requested iov) else (3, e + 3))"

section \<open>Properties\<close>

subsection \<open>Running the model on the sample environment\<close>

lemma sample_fields:
  "IOV_MAX sample_env = 1024" "PATH_MAX sample_env = 4096" "CAP_ADMIN sample_env = 1"
  "F_GETLK sample_env = 12" "F_SETLK sample_env = 13" "F_SETLKW sample_env = 14"
  "IOC_DIR sample_env r = drop_bit 30 r AND 3" "IOC_SIZE sample_env r = drop_bit 16 r AND 16383"
  "IOC_READ sample_env = 2" "IOC_WRITE sample_env = 1" "sizeof_flock sample_env = 24"
  "assert_enabled sample_env = True" "lock_result sample_env = 0"
  "access_begin_result sample_env = 0"
  "access_ok sample_env p n prot = (unat p + unat n \<le> 0x8000)"
  "strcheck sample_env p n = (unat p < 0x8000)" "address_ok sample_env p = (unat p < 0x8000)"
  "capable sample_env c = True" "user_iov sample_env = sample_iov"
  "kernel sample_env = sample_kernel" "kernel_lseek sample_env fd off wh e = (- 22, e)"
  by (simp_all add: sample_env_def sample_abi_def abi.extend_def env.fields_def)

lemmas wrapper_defs =
  interruptible_lock_def efault_if_def negate_def or_else_def u_strcheck_def u_access_ok_def
  u_address_def task_capable_def call_def lseek_def note_ev_def enter_def DERR_def
  u_access_begin_def u_access_end_def

lemmas run_defs =
  do_iov_def u_access_ok_def note_ev_def enter_def sizeof_iovec_def PROT_READ_def PROT_WRITE_def
  iov_body_def Let_def uiov_at_def transfer_def preadv_def pwritev_def unlock_on_return_def
  DERR_def EFAULT_def EINVAL_def EPERM_def requested_def
  sample_fields sample_iov_def sample_kernel_def
  short_fn_def failing_fn_def word_sless_alt word_sle_eq upt_rec

subsection \<open>Rejections before the guard\<close>

text \<open>
  C6. A vectored call whose count is negative or exceeds \<^verbatim>\<open>IOV_MAX\<close> returns \<^verbatim>\<open>-EINVAL\<close>;
  the trace of the call is empty, so the guard is not acquired, nothing is validated and
  the transfer primitive is not invoked, and the outside state is unchanged: no byte is
  transferred. This holds for \<^verbatim>\<open>do_iov\<close> with any primitive and so for each of the four
  vectored wrappers.
\<close>

theorem do_iov_bad_count:
  assumes "count <s 0 \<or> IOV_MAX env <s count"
  shows "do_iov env fd uiov count offset fn prot e = Some (Inr (- EINVAL), \<lparr>trace = [], ext = e\<rparr>)
    \<and> sc_readv env fd uiov count e = Some (Inr (- EINVAL), \<lparr>trace = [], ext = e\<rparr>)
    \<and> sc_writev env fd uiov count e = Some (Inr (- EINVAL), \<lparr>trace = [], ext = e\<rparr>)
    \<and> sc_preadv env fd uiov count off1 off0 e = Some (Inr (- EINVAL), \<lparr>trace = [], ext = e\<rparr>)
    \<and> sc_pwritev env fd uiov count off1 off0 e = Some (Inr (- EINVAL), \<lparr>trace = [], ext = e\<rparr>)"
  using assms
  by (simp add: do_iov_def sc_readv_def sc_writev_def sc_preadv_def sc_pwritev_def
      sc_preadv_off_def sc_pwritev_off_def DERR_def enter_def)

theorem do_iov_bad_count_witness:
  "do_iov sample_env 3 0x1000 (- 1) 0 short_fn PROT_WRITE 0
      = Some (Inr (- EINVAL), \<lparr>trace = [], ext = 0\<rparr>)
    \<and> sc_readv sample_env 3 0x1000 1025 0 = Some (Inr (- EINVAL), \<lparr>trace = [], ext = 0\<rparr>)"
  using do_iov_bad_count [of "- 1" sample_env 3 "0x1000" 0 short_fn PROT_WRITE 0]
    do_iov_bad_count [of 1025 sample_env 3 "0x1000" 0 short_fn PROT_WRITE 0]
  by (simp add: sample_fields word_sless_alt)

text \<open>
  C8. A positioned call with a negative offset returns \<^verbatim>\<open>-EINVAL\<close> with an empty trace:
  the guard is not acquired, no buffer is validated and the underlying operation is not
  invoked. For the 32-bit entries of \<^verbatim>\<open>sc_preadv\<close> and \<^verbatim>\<open>sc_pwritev\<close> the offset is the one
  joined from the two halves.
\<close>

theorem negative_offset_rejected:
  assumes "offset <s 0"
  shows "sc_pread env fd buf len offset e = (- EINVAL, \<lparr>trace = [], ext = e\<rparr>)
    \<and> sc_pwrite env fd buf len offset e = (- EINVAL, \<lparr>trace = [], ext = e\<rparr>)
    \<and> sc_preadv_off env fd iov count offset e = Some (Inr (- EINVAL), \<lparr>trace = [], ext = e\<rparr>)
    \<and> sc_pwritev_off env fd iov count offset e = Some (Inr (- EINVAL), \<lparr>trace = [], ext = e\<rparr>)
    \<and> (join_off off0 off1 = offset \<longrightarrow>
          sc_preadv env fd iov count off1 off0 e = Some (Inr (- EINVAL), \<lparr>trace = [], ext = e\<rparr>)
        \<and> sc_pwritev env fd iov count off1 off0 e = Some (Inr (- EINVAL), \<lparr>trace = [], ext = e\<rparr>))"
  using assms
  by (simp add: sc_pread_def sc_pwrite_def sc_preadv_def sc_pwritev_def
      sc_preadv_off_def sc_pwritev_off_def DERR_def enter_def)

theorem negative_offset_rejected_witness:
  "sc_pread sample_env 3 0x4000 4 (- 1) 0 = (- EINVAL, \<lparr>trace = [], ext = 0\<rparr>)
    \<and> sc_pwrite sample_env 3 0x4000 4 (- 1) 0 = (- EINVAL, \<lparr>trace = [], ext = 0\<rparr>)
    \<and> sc_preadv sample_env 3 0x3000 2 (- 1) (- 1) 0 = Some (Inr (- EINVAL), \<lparr>trace = [], ext = 0\<rparr>)
    \<and> sc_pwritev sample_env 3 0x3000 2 0 (- 1) 0 = Some (Inr (- EINVAL), \<lparr>trace = [], ext = 0\<rparr>)"
proof -
  have neg: "(- 1 :: off_t) <s 0"
    by (simp add: word_sless_alt)
  have j1: "join_off (- 1) (- 1) = - 1"
    by (simp add: join_off_def)
  have neg2: "join_off (- 1) 0 <s 0"
    by code_simp
  show ?thesis
    using negative_offset_rejected [OF neg, of sample_env 3 "0x4000" 4 0 "0x3000" 2 "- 1" "- 1"]
      negative_offset_rejected [OF neg2, of sample_env 3 "0x4000" 4 0 "0x3000" 2 "- 1" 0]
      j1
    by simp
qed

text \<open>
  C9. Without \<^verbatim>\<open>CAP_ADMIN\<close>, \<^verbatim>\<open>sc_mount\<close> and \<^verbatim>\<open>sc_umount2\<close> return \<^verbatim>\<open>-EPERM\<close>, and the only
  event of the call is the capability query: the guard is not acquired, no pointer or
  string is validated, and \<^verbatim>\<open>mount\<close> or \<^verbatim>\<open>umount2\<close> is not invoked.
\<close>

theorem mount_needs_capability:
  assumes "\<not> capable env (CAP_ADMIN env)"
  shows "sc_mount env dev dir fs flags data e
      = (- EPERM, \<lparr>trace = [Ev_capable (CAP_ADMIN env)], ext = e\<rparr>)
    \<and> sc_umount2 env dir uflags e
      = (- EPERM, \<lparr>trace = [Ev_capable (CAP_ADMIN env)], ext = e\<rparr>)"
  using assms
  by (simp add: sc_mount_def sc_umount2_def task_capable_def note_ev_def DERR_def enter_def)

theorem mount_needs_capability_witness:
  "sc_mount (sample_env\<lparr>capable := \<lambda>c. False\<rparr>) 0x100 0x200 0x300 0 0 0
      = (- EPERM, \<lparr>trace = [Ev_capable 1], ext = 0\<rparr>)
    \<and> sc_umount2 (sample_env\<lparr>capable := \<lambda>c. False\<rparr>) 0x200 0 0
      = (- EPERM, \<lparr>trace = [Ev_capable 1], ext = 0\<rparr>)"
  using mount_needs_capability
    [of "sample_env\<lparr>capable := \<lambda>c. False\<rparr>" "0x100" "0x200" "0x300" 0 0 0 0]
  by (simp add: sample_env_def sample_abi_def abi.extend_def env.fields_def)

subsection \<open>Signed words and the remaining count\<close>

lemma sint_of_int_le:
  fixes a :: int
  assumes "0 \<le> a"
  shows "sint (word_of_int a :: 32 word) \<le> a"
  using assms by (simp add: sint_sbintrunc' signed_take_bit_int_less_eq_self_iff)

lemma sint_of_nat_le: "sint (of_nat n :: 32 word) \<le> int n"
  using sint_of_int_le[of "int n"] by simp

lemma spos:
  fixes r :: "32 word"
  assumes "r \<noteq> 0" "\<not> r <s 0"
  shows "0 <s r"
  using assms by (auto simp: word_sless_alt) (metis signed_eq_0_iff linorder_neqE_linordered_idom)

lemma sle_not_sless_eq:
  fixes r l :: "32 word"
  assumes "r \<le>s l" "\<not> r <s l"
  shows "r = l"
  using assms by (auto simp: word_sle_eq word_sless_alt intro: signed_word_eqI)

lemma min16_cases:
  fixes count :: "32 word"
  shows "(count \<le> 16 \<and> min count 16 = count) \<or> (16 < count \<and> min count 16 = 16)"
  by (auto simp: min_def)

lemma count_decreases:
  fixes count :: "32 word"
  assumes "count - min count 16 \<noteq> 0"
  shows "unat (count - min count 16) < unat count"
proof -
  from assms min16_cases[of count] have gt: "16 < count" and m: "min count 16 = 16"
    by auto
  from gt have "unat (count - 16) = unat count - unat (16::32 word)"
    by (simp add: unat_sub word_le_less_eq)
  moreover from gt have "16 < unat count"
    by (simp add: word_less_nat_alt)
  ultimately show ?thesis using m by simp
qed

subsection \<open>One batch\<close>

lemma transfer_eq:
  "transfer fn fd iov off s =
     (fst (fn fd iov off (ext s)),
      \<lparr>trace = trace s @ [Ev_transfer fd iov off], ext = snd (fn fd iov off (ext s))\<rparr>)"
  by (simp add: transfer_def split: prod.splits)

lemma iov_for_result:
  assumes "iov_for env prot uiov js iov l s = (Some (iov', l'), s1)"
  shows "iov' = iov @ filter nonnull (map (uiov_at env uiov) js)
       \<and> l' = l + sum_list (map iov_len (filter nonnull (map (uiov_at env uiov) js)))
       \<and> ext s1 = ext s"
  using assms
proof (induction js arbitrary: iov l s)
  case Nil
  then show ?case by simp
next
  case (Cons i js)
  show ?case
  proof (cases "iov_base (uiov_at env uiov i) = 0")
    case True
    with Cons.prems have "iov_for env prot uiov js iov l s = (Some (iov', l'), s1)" by simp
    from Cons.IH[OF this] True show ?thesis by (simp add: nonnull_def)
  next
    case False
    with Cons.prems
    have rec: "iov_for env prot uiov js (iov @ [uiov_at env uiov i]) (l + iov_len (uiov_at env uiov i))
         (note_ev (Ev_access_ok (iov_base (uiov_at env uiov i)) (iov_len (uiov_at env uiov i)) prot) s)
           = (Some (iov', l'), s1)"
      by (auto simp: u_access_ok_def split: if_splits)
    from Cons.IH[OF rec] False show ?thesis
      by (auto simp: nonnull_def note_ev_def add.assoc)
  qed
qed

lemma batch_requested:
  assumes "iov_for env prot uiov [0..<n] [] 0 s = (Some (iov, l), s1)"
  shows "requested iov = nonnull_total env uiov n" and "list_all nonnull iov"
  using iov_for_result[OF assms]
  by (simp_all add: nonnull_total_def user_entries_def list_all_iff)

lemma batch_length:
  assumes "iov_for env prot uiov js [] 0 s = (Some (iov, l), s1)"
  shows "l = sum_list (map iov_len iov)" and "ext s1 = ext s"
  using iov_for_result[OF assms] by simp_all

lemma iov_for_trace:
  assumes "list_all no_null_batch (trace s)"
  shows "list_all no_null_batch (trace (snd (iov_for env prot uiov js iov l s)))"
  using assms
proof (induction js arbitrary: iov l s)
  case Nil
  then show ?case by simp
next
  case (Cons i js)
  then show ?case
    by (simp add: u_access_ok_def note_ev_def no_null_batch_def)
qed

lemma iov_body_returns:
  assumes "iov_body env fd fn prot uiov count offset ret s = Done (Inr v) s'"
  obtains (efault) "v = - EFAULT"
   | (acc) "v = ret"
   | (err) "v <s 0"
   | (add) iov l s1 r where
       "iov_for env prot uiov [0..<unat (min count 16)] [] 0 s = (Some (iov, l), s1)"
       "transfer fn fd iov offset s1 = (r, s')" "0 <s r" "v = ret + r"
  using assms
  by (auto simp: iov_body_def Let_def DERR_def spos split: prod.splits option.splits if_splits)

lemma iov_body_again:
  assumes "iov_body env fd fn prot uiov count offset ret s = Again u' c' o' r' s'"
  obtains iov l s1 r where
       "iov_for env prot uiov [0..<unat (min count 16)] [] 0 s = (Some (iov, l), s1)"
       "transfer fn fd iov offset s1 = (r, s')" "0 <s r" "r' = ret + r"
       "c' = count - min count 16" "c' \<noteq> 0" "u' = uiov + sizeof_iovec * min count 16"
  using assms
  by (auto simp: iov_body_def Let_def DERR_def spos split: prod.splits option.splits if_splits)

lemma iov_body_trace:
  assumes "list_all no_null_batch (trace s)"
  shows "case iov_body env fd fn prot uiov count offset ret s of
           Done x s' \<Rightarrow> list_all no_null_batch (trace s')
         | Again u' c' o' r' s' \<Rightarrow> list_all no_null_batch (trace s')"
proof (cases "iov_for env prot uiov [0..<unat (min count 16)] [] 0 s")
  case (Pair x s1)
  from iov_for_trace[OF assms, of env prot uiov "[0..<unat (min count 16)]" "[]" 0] Pair
  have t1: "list_all no_null_batch (trace s1)" by simp
  show ?thesis
  proof (cases x)
    case None
    with Pair t1 show ?thesis by (simp add: iov_body_def)
  next
    case (Some p)
    obtain iov l where p: "p = (iov, l)" by (cases p)
    from batch_requested(2)[of env prot uiov "unat (min count 16)" s iov l s1] Pair Some p
    have "list_all nonnull iov" by simp
    with t1 have "list_all no_null_batch (trace s1 @ [Ev_transfer fd iov offset])"
      by (simp add: no_null_batch_def)
    with Pair Some p show ?thesis
      by (simp add: iov_body_def transfer_eq Let_def)
  qed
qed

subsection \<open>Sums of lengths\<close>

lemma requested_append: "requested (xs @ ys) = requested xs + requested ys"
  by (simp add: requested_def)

lemma user_entries_add:
  "user_entries env uiov (m + n) =
     user_entries env uiov m @ user_entries env (uiov + sizeof_iovec * of_nat m) n"
proof -
  have "[0..<m + n] = [0..<m] @ [m..<n + m]"
    using upt_add_eq_append[of 0 m n] by (simp add: add.commute[of m n])
  then have "[0..<m + n] = [0..<m] @ map (\<lambda>i. i + m) [0..<n]"
    by (simp only: map_add_upt)
  moreover have "\<And>i. uiov_at env (uiov + sizeof_iovec * of_nat m) i = uiov_at env uiov (i + m)"
    by (simp add: uiov_at_def algebra_simps)
  ultimately show ?thesis
    by (simp add: user_entries_def comp_def)
qed

lemma nonnull_total_add:
  "nonnull_total env uiov (m + n) =
     nonnull_total env uiov m + nonnull_total env (uiov + sizeof_iovec * of_nat m) n"
  by (simp add: nonnull_total_def user_entries_add requested_append)

lemma nonnull_total_split:
  fixes count :: "32 word"
  shows "nonnull_total env uiov (unat count) =
    nonnull_total env uiov (unat (min count 16))
      + nonnull_total env (uiov + sizeof_iovec * min count 16) (unat (count - min count 16))"
proof -
  have le: "min count 16 \<le> count" by simp
  then have "unat count = unat (min count 16) + unat (count - min count 16)"
    by (simp add: unat_sub word_le_nat_alt)
  then show ?thesis
    using nonnull_total_add[of env uiov "unat (min count 16)" "unat (count - min count 16)"]
    by simp
qed

lemma word_sum_requested:
  "sum_list (map iov_len iov) = (word_of_int (int (requested iov)) :: 32 word)"
  by (induction iov) (simp_all add: requested_def)

lemma sint_sum_le_requested: "sint (sum_list (map iov_len iov)) \<le> int (requested iov)"
  using sint_of_int_le[of "int (requested iov)"] by (simp add: word_sum_requested)

subsection \<open>The loop\<close>

lemma iov_loop_terminates:
  "\<exists>x. iov_loop env fd fn prot uiov count offset ret s = Some x"
proof (induction "unat count" arbitrary: uiov count offset ret s rule: less_induct)
  case less
  show ?case
  proof (cases "iov_body env fd fn prot uiov count offset ret s")
    case (Done v s')
    then show ?thesis by (subst iov_loop.simps) simp
  next
    case (Again u' c' o' r' s')
    then have "c' = count - min count 16" "c' \<noteq> 0"
      by (auto elim: iov_body_again)
    with count_decreases[of count] have "unat c' < unat count" by simp
    from less[OF this] obtain x where "iov_loop env fd fn prot u' c' o' r' s' = Some x" by blast
    with Again show ?thesis by (subst iov_loop.simps) simp
  qed
qed

lemma iov_body_no_fault:
  assumes A: "\<And>fd iov off e. fst (fn fd iov off e) \<le>s sum_list (map iov_len iov)"
  shows "iov_body env fd fn prot uiov count offset ret s \<noteq> Done (Inl f) s'"
proof
  assume d: "iov_body env fd fn prot uiov count offset ret s = Done (Inl f) s'"
  then obtain iov l s1 r
    where f: "iov_for env prot uiov [0..<unat (min count 16)] [] 0 s = (Some (iov, l), s1)"
      and t: "transfer fn fd iov offset s1 = (r, s')" and n: "\<not> r <s l" "r \<noteq> l"
    by (auto simp: iov_body_def Let_def split: prod.splits option.splits if_splits)
  from t have "r = fst (fn fd iov offset (ext s1))" by (simp add: transfer_eq)
  with A[of fd iov offset "ext s1"] batch_length(1)[OF f] have "r \<le>s l" by simp
  with n sle_not_sless_eq show False by blast
qed

lemma iov_loop_returns:
  assumes A: "\<And>fd iov off e. fst (fn fd iov off e) \<le>s sum_list (map iov_len iov)"
  shows "\<exists>v s'. iov_loop env fd fn prot uiov count offset ret s = Some (Inr v, s')"
proof (induction "unat count" arbitrary: uiov count offset ret s rule: less_induct)
  case less
  show ?case
  proof (cases "iov_body env fd fn prot uiov count offset ret s")
    case (Done x s')
    with iov_body_no_fault[where fn=fn and env=env and fd=fd and prot=prot and uiov=uiov
        and count=count and offset=offset and ret=ret and s=s, OF A] obtain v where "x = Inr v"
      by (cases x) auto
    with Done show ?thesis by (subst iov_loop.simps) simp
  next
    case (Again u' c' o' r' s')
    then have "c' = count - min count 16" "c' \<noteq> 0"
      by (auto elim: iov_body_again)
    with count_decreases[of count] have "unat c' < unat count" by simp
    from less[OF this] obtain v s2 where "iov_loop env fd fn prot u' c' o' r' s' = Some (Inr v, s2)"
      by blast
    with Again show ?thesis by (subst iov_loop.simps) simp
  qed
qed

lemma iov_body_zero:
  assumes A: "\<And>fd iov off e. fst (fn fd iov off e) \<le>s sum_list (map iov_len iov)"
  shows "\<exists>v s'. iov_body env fd fn prot uiov 0 offset ret s = Done (Inr v) s'"
proof (cases "iov_body env fd fn prot uiov 0 offset ret s")
  case (Done x s')
  with iov_body_no_fault[where fn=fn and env=env and fd=fd and prot=prot and uiov=uiov
      and count=0 and offset=offset and ret=ret and s=s, OF A] show ?thesis
    by (cases x) auto
next
  case (Again u' c' o' r' s')
  then have "c' = 0 - min 0 16" "c' \<noteq> 0"
    by (auto elim: iov_body_again)
  then show ?thesis by simp
qed

lemma unlock_on_return_Inr:
  "unlock_on_return x = (Inr v, s') \<longleftrightarrow> (\<exists>s0. x = (Inr v, s0) \<and> s' = note_ev Ev_unlock s0)"
proof (cases x)
  case (Pair a s0)
  then show ?thesis by (cases a) (auto simp: unlock_on_return_def)
qed

lemma iov_loop_bound:
  assumes B: "\<And>fd iov off e. sint (fst (fn fd iov off e)) \<le> int (requested iov)"
    and "iov_loop env fd fn prot uiov count offset ret s = Some (Inr v, s')"
    and "0 \<le> a" and "ret = word_of_int a" and "0 \<le>s v"
  shows "sint v \<le> a + int (nonnull_total env uiov (unat count))"
  using assms(2-)
proof (induction "unat count" arbitrary: uiov count offset ret s a rule: less_induct)
  case less
  let ?c = "min count 16"
  show ?case
  proof (cases "iov_body env fd fn prot uiov count offset ret s")
    case (Done x s2)
    with less.prems(1) have d: "iov_body env fd fn prot uiov count offset ret s = Done (Inr v) s'"
      by (subst (asm) iov_loop.simps) simp
    from d show ?thesis
    proof (cases rule: iov_body_returns)
      case efault
      with less.prems(4) show ?thesis by (simp add: EFAULT_def word_sle_eq)
    next
      case acc
      with less.prems(2,3) sint_of_int_le[of a] show ?thesis by simp
    next
      case err
      with less.prems(4) show ?thesis by (simp add: word_sle_eq word_sless_alt)
    next
      case (add iov l s1 r)
      from add(2) have r: "r = fst (fn fd iov offset (ext s1))" by (simp add: transfer_eq)
      from B[of fd iov offset "ext s1"] r batch_requested(1)[OF add(1)]
      have rb: "sint r \<le> int (nonnull_total env uiov (unat ?c))" by simp
      from add(3) have rp: "0 < sint r" by (simp add: word_sless_alt)
      from add(4) less.prems(3) have "v = word_of_int (a + sint r)" by simp
      with sint_of_int_le[of "a + sint r"] less.prems(2) rp have "sint v \<le> a + sint r" by simp
      with rb nonnull_total_split[of env uiov count] show ?thesis by simp
    qed
  next
    case (Again u' c' o' r' s2)
    with less.prems(1) have l2: "iov_loop env fd fn prot u' c' o' r' s2 = Some (Inr v, s')"
      by (subst (asm) iov_loop.simps) simp
    from Again show ?thesis
    proof (cases rule: iov_body_again)
      case (1 iov l s1 r)
      from 1(2) have r: "r = fst (fn fd iov offset (ext s1))" by (simp add: transfer_eq)
      from B[of fd iov offset "ext s1"] r batch_requested(1)[OF 1(1)]
      have rb: "sint r \<le> int (nonnull_total env uiov (unat ?c))" by simp
      from 1(3) have rp: "0 < sint r" by (simp add: word_sless_alt)
      from 1(5,6) count_decreases[of count] have dec: "unat c' < unat count" by simp
      from 1(4) less.prems(3) have r': "r' = word_of_int (a + sint r)" by simp
      from less.prems(2) rp have a': "0 \<le> a + sint r" by simp
      from less.hyps[OF dec l2 a' r' less.prems(4)]
      have "sint v \<le> a + sint r + int (nonnull_total env u' (unat c'))" .
      with rb nonnull_total_split[of env uiov count] 1(5,7) show ?thesis by simp
    qed
  qed
qed

lemma iov_loop_trace:
  assumes "iov_loop env fd fn prot uiov count offset ret s = Some (x, s')"
    and "list_all no_null_batch (trace s)"
  shows "list_all no_null_batch (trace s')"
  using assms
proof (induction "unat count" arbitrary: uiov count offset ret s rule: less_induct)
  case less
  show ?case
  proof (cases "iov_body env fd fn prot uiov count offset ret s")
    case (Done y s2)
    with less.prems(1) have "s2 = s'" by (subst (asm) iov_loop.simps) simp
    with iov_body_trace[OF less.prems(2), of env fd fn prot uiov count offset ret] Done
    show ?thesis by simp
  next
    case (Again u' c' o' r' s2)
    with less.prems(1) have l2: "iov_loop env fd fn prot u' c' o' r' s2 = Some (x, s')"
      by (subst (asm) iov_loop.simps) simp
    from iov_body_trace[OF less.prems(2), of env fd fn prot uiov count offset ret] Again
    have t2: "list_all no_null_batch (trace s2)" by simp
    from Again have "c' = count - min count 16" "c' \<noteq> 0"
      by (auto elim: iov_body_again)
    with count_decreases[of count] have "unat c' < unat count" by simp
    from less.hyps[OF this l2 t2] show ?thesis .
  qed
qed

subsection \<open>Properties of \<^verbatim>\<open>do_iov\<close>\<close>

text \<open>
  Let the transfer primitive never return more than the length \<open>l\<close> that \<^verbatim>\<open>do_iov\<close>
  computes for the batch: the sum of the lengths of its entries in \<^verbatim>\<open>ssize_t\<close>, which is
  what the batch asks for as long as that is less than \<open>2^31\<close>. Then \<^verbatim>\<open>do_iov\<close> returns
  a value, for every count: a count outside \<open>[0, IOV_MAX]\<close> returns at once, and for the
  others the loop ends because every pass through its body either returns or goes on
  with the count reduced by the batch size \<open>min count 16\<close>, a strictly smaller count, and
  a pass with count zero returns.
\<close>

lemma do_iov_returns_within_l:
  assumes A: "\<And>fd iov off e. fst (fn fd iov off e) \<le>s sum_list (map iov_len iov)"
  shows "(\<exists>v s'. do_iov env fd uiov count offset fn prot e = Some (Inr v, s'))
    \<and> (\<forall>u c off r s u' c' off' r' s'.
          iov_body env fd fn prot u c off r s = Again u' c' off' r' s'
            \<longrightarrow> c' = c - min c 16 \<and> unat c' < unat c)
    \<and> (\<forall>u off r s. \<exists>v s'. iov_body env fd fn prot u 0 off r s = Done (Inr v) s')"
proof (intro conjI allI impI)
  show "\<exists>v s'. do_iov env fd uiov count offset fn prot e = Some (Inr v, s')"
  proof (cases "count <s 0 \<or> IOV_MAX env <s count \<or> lock_result env <s 0
      \<or> \<not> access_ok env uiov (sizeof_iovec * count) PROT_READ")
    case True
    then show ?thesis
      by (auto simp: do_iov_def u_access_ok_def unlock_on_return_def)
  next
    case False
    let ?s1 = "note_ev (Ev_access_ok uiov (sizeof_iovec * count) PROT_READ) (note_ev Ev_lock (enter e))"
    from iov_loop_returns[where fn=fn and env=env and fd=fd and prot=prot and uiov=uiov
        and count=count and offset=offset and ret=0 and s="?s1", OF A]
    obtain v s0 where "iov_loop env fd fn prot uiov count offset 0 ?s1 = Some (Inr v, s0)" by blast
    with False show ?thesis
      by (simp add: do_iov_def u_access_ok_def unlock_on_return_def)
  qed
next
  fix u c off r s u' c' off' r' s'
  assume "iov_body env fd fn prot u c off r s = Again u' c' off' r' s'"
  then have "c' = c - min c 16" "c' \<noteq> 0"
    by (auto elim: iov_body_again)
  with count_decreases[of c] show "c' = c - min c 16" "unat c' < unat c" by simp_all
next
  fix u off r s
  show "\<exists>v s'. iov_body env fd fn prot u 0 off r s = Done (Inr v) s'"
    by (rule iov_body_zero[OF A])
qed

lemma wide_fields:
  "IOV_MAX wide_env = 1024" "assert_enabled wide_env = True" "lock_result wide_env = 0"
  "access_ok wide_env p n prot = (unat p + unat n \<le> 0xC0000000)" "user_iov wide_env = wide_iov"
  "IOV_MAX (wide_env\<lparr>assert_enabled := False\<rparr>) = 1024"
  "assert_enabled (wide_env\<lparr>assert_enabled := False\<rparr>) = False"
  "lock_result (wide_env\<lparr>assert_enabled := False\<rparr>) = 0"
  "access_ok (wide_env\<lparr>assert_enabled := False\<rparr>) p n prot = (unat p + unat n \<le> 0xC0000000)"
  "user_iov (wide_env\<lparr>assert_enabled := False\<rparr>) = wide_iov"
  by (simp_all add: wide_env_def sample_fields)

lemma capped_within: "sint (fst (capped_fn fd iov off e)) \<le> int (requested iov)"
  by (simp add: capped_fn_def sint_of_nat_le)

lemmas wide_run_defs =
  do_iov_def u_access_ok_def note_ev_def enter_def sizeof_iovec_def PROT_READ_def PROT_WRITE_def
  iov_body_def Let_def uiov_at_def transfer_def unlock_on_return_def
  DERR_def EFAULT_def EINVAL_def requested_def
  wide_fields wide_iov_def capped_fn_def word_sless_alt word_sle_eq upt_rec

text \<open>
  C10. On the second environment, with assertions enabled: the primitive \<open>capped_fn\<close>
  never returns more than its batch asks for, and the count 2 lies in \<open>[0, IOV_MAX]\<close>.
  The two entries ask for \<open>2^31\<close> bytes, \<open>l\<close> wraps to a negative value, the three
  bytes transferred are not less than \<open>l\<close>, and the call stops at \<^verbatim>\<open>assert(r == l)\<close>: it
  does not return.
\<close>

theorem bounded_primitive_assertion_stop:
  "(\<forall>fd iov off e. sint (fst (capped_fn fd iov off e)) \<le> int (requested iov))
   \<and> do_iov wide_env 3 0x1000 2 0 capped_fn PROT_WRITE 0
      = Some (Inl Assertion_failed,
          \<lparr>trace = [Ev_lock, Ev_access_ok 0x1000 16 PROT_READ,
              Ev_access_ok 0x40000000 0x40000000 PROT_WRITE, Ev_access_ok 0x40000000 0x40000000 PROT_WRITE,
              Ev_transfer 3 [\<lparr>iov_base = 0x40000000, iov_len = 0x40000000\<rparr>,
                             \<lparr>iov_base = 0x40000000, iov_len = 0x40000000\<rparr>] 0],
            ext = 3\<rparr>)"
proof -
  have "do_iov wide_env 3 0x1000 2 0 capped_fn PROT_WRITE 0
      = Some (Inl Assertion_failed,
          \<lparr>trace = [Ev_lock, Ev_access_ok 0x1000 16 PROT_READ,
              Ev_access_ok 0x40000000 0x40000000 PROT_WRITE, Ev_access_ok 0x40000000 0x40000000 PROT_WRITE,
              Ev_transfer 3 [\<lparr>iov_base = 0x40000000, iov_len = 0x40000000\<rparr>,
                             \<lparr>iov_base = 0x40000000, iov_len = 0x40000000\<rparr>] 0],
            ext = 3\<rparr>)"
    by (simp add: wide_run_defs iov_loop.simps)
  with capped_within show ?thesis by blast
qed

lemma unlock_on_return_trace:
  assumes "unlock_on_return (y, s0) = (x, s')" and "list_all no_null_batch (trace s0)"
  shows "x = y \<and> list_all no_null_batch (trace s')"
  using assms by (cases y) (auto simp: unlock_on_return_def note_ev_def no_null_batch_def)

text \<open>
  C3. Let the transfer primitive never return more than the bytes its batch asks for.
  Then a non-negative value returned by \<^verbatim>\<open>do_iov\<close> is at most the sum of the lengths of
  the entries of the descriptor array whose pointer is not null; and, whatever the outcome
  of the call, every batch handed to the primitive is free of null pointers.
\<close>

theorem do_iov_bound:
  assumes "\<And>fd iov off e. sint (fst (fn fd iov off e)) \<le> int (requested iov)"
    and "do_iov env fd uiov count offset fn prot e = Some (x, s')"
  shows "(\<forall>v. x = Inr v \<and> 0 \<le>s v \<longrightarrow> sint v \<le> int (nonnull_total env uiov (unat count)))
    \<and> list_all no_null_batch (trace s')"
proof (cases "count <s 0 \<or> IOV_MAX env <s count \<or> lock_result env <s 0
    \<or> \<not> access_ok env uiov (sizeof_iovec * count) PROT_READ")
  case True
  with assms(2) have "(\<exists>w. x = Inr w \<and> w <s 0) \<and> list_all no_null_batch (trace s')"
    by (auto simp: do_iov_def DERR_def EINVAL_def EFAULT_def enter_def u_access_ok_def
        unlock_on_return_def note_ev_def no_null_batch_def word_sless_alt split: if_splits)
  then show ?thesis by (auto simp: word_sle_eq word_sless_alt)
next
  case False
  let ?s1 = "note_ev (Ev_access_ok uiov (sizeof_iovec * count) PROT_READ) (note_ev Ev_lock (enter e))"
  from False assms(2)
  have "map_option unlock_on_return (iov_loop env fd fn prot uiov count offset 0 ?s1)
      = Some (x, s')"
    by (simp add: do_iov_def u_access_ok_def)
  then obtain y s0 where loop: "iov_loop env fd fn prot uiov count offset 0 ?s1 = Some (y, s0)"
    and u: "unlock_on_return (y, s0) = (x, s')"
    by auto
  have t1: "list_all no_null_batch (trace ?s1)"
    by (simp add: note_ev_def enter_def no_null_batch_def)
  from unlock_on_return_trace[OF u iov_loop_trace[OF loop t1]]
  have xy: "x = y" and tr: "list_all no_null_batch (trace s')" by simp_all
  have "sint v \<le> int (nonnull_total env uiov (unat count))" if "x = Inr v" "0 \<le>s v" for v
  proof -
    from that(1) xy loop have "iov_loop env fd fn prot uiov count offset 0 ?s1 = Some (Inr v, s0)"
      by simp
    from iov_loop_bound[OF assms(1) this _ _ that(2), of 0] show ?thesis by simp
  qed
  with tr show ?thesis by blast
qed

theorem do_iov_bound_witness:
  "do_iov sample_env 3 0x3000 2 0 (preadv sample_env) PROT_WRITE 0
     = Some (Inr 8, \<lparr>trace = [Ev_lock, Ev_access_ok 0x3000 16 PROT_READ,
         Ev_access_ok 0x4000 4 PROT_WRITE, Ev_access_ok 0x4000 4 PROT_WRITE,
         Ev_transfer 3 [\<lparr>iov_base = 0x4000, iov_len = 4\<rparr>, \<lparr>iov_base = 0x4000, iov_len = 4\<rparr>] 0,
         Ev_unlock], ext = 8\<rparr>)
   \<and> sint (8 :: ssize_t) \<le> int (nonnull_total sample_env 0x3000 (unat (2 :: c_int)))"
proof -
  have within: "\<And>fd iov off e. sint (fst (preadv sample_env fd iov off e)) \<le> int (requested iov)"
    by (simp add: preadv_def sample_fields sample_kernel_def sint_sum_le_requested)
  have run: "do_iov sample_env 3 0x3000 2 0 (preadv sample_env) PROT_WRITE 0
     = Some (Inr 8, \<lparr>trace = [Ev_lock, Ev_access_ok 0x3000 16 PROT_READ,
         Ev_access_ok 0x4000 4 PROT_WRITE, Ev_access_ok 0x4000 4 PROT_WRITE,
         Ev_transfer 3 [\<lparr>iov_base = 0x4000, iov_len = 4\<rparr>, \<lparr>iov_base = 0x4000, iov_len = 4\<rparr>] 0,
         Ev_unlock], ext = 8\<rparr>)"
    by (simp add: run_defs iov_loop.simps)
  have pos: "0 \<le>s (8 :: ssize_t)"
    by (simp add: word_sle_eq)
  from do_iov_bound[OF within run] pos run show ?thesis by simp
qed

text \<open>
  In any pass of the loop whose batch passes validation: if the transfer primitive
  returns a positive count strictly less than the length \<open>l\<close> that \<^verbatim>\<open>do_iov\<close> computes
  for the batch (the sum of the lengths of its entries in \<^verbatim>\<open>ssize_t\<close>), the loop ends
  there. It returns the total so far plus the short count, and the transfer of this
  batch is the last event.
\<close>

lemma short_count_below_l_stops:
  assumes "iov_for env prot uiov [0..<unat (min count 16)] [] 0 s = (Some (iov, l), s1)"
    and "fn fd iov offset (ext s1) = (r, e')"
    and "0 <s r" and "r <s sum_list (map iov_len iov)"
  shows "iov_loop env fd fn prot uiov count offset ret s
    = Some (Inr (ret + r), \<lparr>trace = trace s1 @ [Ev_transfer fd iov offset], ext = e'\<rparr>)"
proof -
  from batch_length(1)[OF assms(1)] assms(4) have "r <s l" by simp
  moreover from assms(3) have "r \<noteq> 0" "\<not> r <s 0" by (auto simp: word_sless_alt)
  ultimately have "iov_body env fd fn prot uiov count offset ret s
      = Done (Inr (ret + r)) \<lparr>trace = trace s1 @ [Ev_transfer fd iov offset], ext = e'\<rparr>"
    using assms(1,2) by (simp add: iov_body_def transfer_def)
  then show ?thesis by (subst iov_loop.simps) simp
qed

text \<open>
  C5. On the second environment: the first batch of the array of 17 entries asks for
  \<open>2^31\<close> bytes and the primitive transfers three of them, a positive count less than
  what the batch asks for. Since \<open>l\<close> has wrapped to a negative value, the count is not
  taken as short. With assertions disabled the loop goes on: the second batch is
  validated and transferred, and the call returns 6. With assertions enabled the call
  stops at \<^verbatim>\<open>assert(r == l)\<close>.
\<close>

theorem short_count_not_final:
  "do_iov (wide_env\<lparr>assert_enabled := False\<rparr>) 3 0x1000 17 0 capped_fn PROT_WRITE 0
      = Some (Inr 6,
          \<lparr>trace = [Ev_lock, Ev_access_ok 0x1000 136 PROT_READ,
              Ev_access_ok 0x40000000 0x40000000 PROT_WRITE, Ev_access_ok 0x40000000 0x40000000 PROT_WRITE,
              Ev_transfer 3 [\<lparr>iov_base = 0x40000000, iov_len = 0x40000000\<rparr>,
                             \<lparr>iov_base = 0x40000000, iov_len = 0x40000000\<rparr>] 0,
              Ev_access_ok 0x40000000 4 PROT_WRITE,
              Ev_transfer 3 [\<lparr>iov_base = 0x40000000, iov_len = 4\<rparr>] 3,
              Ev_unlock],
            ext = 6\<rparr>)
   \<and> (\<exists>s'. do_iov wide_env 3 0x1000 17 0 capped_fn PROT_WRITE 0 = Some (Inl Assertion_failed, s'))
   \<and> capped_fn 3 [\<lparr>iov_base = 0x40000000, iov_len = 0x40000000\<rparr>,
                    \<lparr>iov_base = 0x40000000, iov_len = 0x40000000\<rparr>] 0 0 = (3, 3)
   \<and> requested [\<lparr>iov_base = 0x40000000, iov_len = 0x40000000\<rparr>,
                 \<lparr>iov_base = 0x40000000, iov_len = 0x40000000\<rparr>] = 2147483648"
  by (simp add: wide_run_defs iov_loop.simps)

text \<open>
  C4, as amended. For a descriptor array of one entry whose pointer is null, with the
  guard acquired and the array itself valid, \<^verbatim>\<open>do_iov\<close> validates no buffer and invokes
  the transfer primitive once, with an empty batch; when that call returns zero or a
  negative error, \<^verbatim>\<open>do_iov\<close> returns the same value: zero bytes when the primitive
  returns zero.
\<close>

theorem single_null_entry:
  assumes "\<not> IOV_MAX env <s 1" and "\<not> lock_result env <s 0"
    and "access_ok env uiov sizeof_iovec PROT_READ"
    and "iov_base (user_iov env uiov) = 0"
    and "fn fd [] offset e = (r, e')" and "r \<le>s 0"
  shows "do_iov env fd uiov 1 offset fn prot e
    = Some (Inr r, \<lparr>trace = [Ev_lock, Ev_access_ok uiov sizeof_iovec PROT_READ,
                              Ev_transfer fd [] offset, Ev_unlock], ext = e'\<rparr>)"
proof -
  let ?s1 = "\<lparr>trace = [Ev_lock, Ev_access_ok uiov sizeof_iovec PROT_READ], ext = e\<rparr>"
  let ?s2 = "\<lparr>trace = [Ev_lock, Ev_access_ok uiov sizeof_iovec PROT_READ,
                       Ev_transfer fd [] offset], ext = e'\<rparr>"
  have f: "iov_for env prot uiov [0..<unat (min (1::32 word) 16)] [] 0 ?s1 = (Some ([], 0), ?s1)"
    using assms(4) by (simp add: uiov_at_def)
  from assms(6) have r: "r = 0 \<or> r <s 0"
    by (auto simp: word_sle_eq word_sless_alt intro: signed_word_eqI)
  have "iov_body env fd fn prot uiov 1 offset 0 ?s1 = Done (Inr r) ?s2"
    using f assms(5) r by (auto simp: iov_body_def transfer_def)
  then have "iov_loop env fd fn prot uiov 1 offset 0 ?s1 = Some (Inr r, ?s2)"
    by (subst iov_loop.simps) simp
  with assms(1-3) show ?thesis
    by (simp add: do_iov_def u_access_ok_def note_ev_def enter_def unlock_on_return_def
        word_sless_alt)
qed

theorem single_null_entry_witness:
  "do_iov sample_env 3 0x2000 1 (- 1) (preadv sample_env) PROT_WRITE 0
    = Some (Inr 0, \<lparr>trace = [Ev_lock, Ev_access_ok 0x2000 sizeof_iovec PROT_READ,
                              Ev_transfer 3 [] (- 1), Ev_unlock], ext = 0\<rparr>)"
  using single_null_entry [of sample_env "0x2000" "preadv sample_env" 3 "- 1" 0 0 0 PROT_WRITE]
  by (simp add: sample_fields sample_iov_def sample_kernel_def preadv_def requested_def
      sizeof_iovec_def PROT_READ_def word_sless_alt word_sle_eq)

theorem single_null_entry_counterexample:
  "iov_base (user_iov sample_env 0x2000) = 0 \<and> iov_len (user_iov sample_env 0x2000) = 10
   \<and> access_ok sample_env 0x2000 (sizeof_iovec * 1) PROT_READ
   \<and> do_iov sample_env 3 0x2000 1 (- 1) failing_fn PROT_WRITE 0
      = Some (Inr (- 9), \<lparr>trace = [Ev_lock, Ev_access_ok 0x2000 8 PROT_READ,
                                   Ev_transfer 3 [] (- 1), Ev_unlock], ext = 0\<rparr>)"
  by (simp add: run_defs iov_loop.simps)

text \<open>
  C1. The call on the sample array of 17 entries at \<open>0x1000\<close>: the first batch of 16
  transfers four bytes, the entry of the second batch fails validation, and \<^verbatim>\<open>do_iov\<close>
  returns \<^verbatim>\<open>-EFAULT\<close>, not the four bytes transferred.
\<close>

theorem later_batch_fault_is_error:
  "do_iov sample_env 3 0x1000 17 (- 1) (preadv sample_env) PROT_WRITE 0
    = Some (Inr (- EFAULT), \<lparr>trace = [Ev_lock, Ev_access_ok 0x1000 136 PROT_READ,
          Ev_access_ok 0x4000 4 PROT_WRITE,
          Ev_transfer 3 [\<lparr>iov_base = 0x4000, iov_len = 4\<rparr>] (- 1),
          Ev_access_ok 0x9000 4 PROT_WRITE, Ev_unlock], ext = 4\<rparr>)"
  by (simp add: run_defs iov_loop.simps)

subsection \<open>The single-operation wrappers\<close>




text \<open>
  C2. On the sample environment: \<^verbatim>\<open>sc_ioctl\<close> with a request of direction \<^verbatim>\<open>_IOC_READ\<close>
  pins the address space, validates the argument, calls \<^verbatim>\<open>ioctl\<close> and returns its
  result; \<^verbatim>\<open>sc_fcntl\<close> with \<^verbatim>\<open>F_GETLK\<close> and an argument that fails validation pins the
  address space and returns \<^verbatim>\<open>-EFAULT\<close>. Neither trace has the release of the pin.
\<close>

theorem access_pin_not_released:
  "sc_ioctl sample_env 3 0x80041234 0x4000 0
     = (0, \<lparr>trace = [Ev_access_begin, Ev_access_ok 0x4000 4 PROT_WRITE,
                      Ev_call (Ioctl 3 0x80041234 0x4000)], ext = 0\<rparr>)
   \<and> sc_fcntl sample_env 3 12 0x9000 0
     = (- EFAULT, \<lparr>trace = [Ev_access_begin, Ev_access_ok 0x9000 24 PROT_WRITE], ext = 0\<rparr>)"
  by (simp add: sc_ioctl_def sc_fcntl_def wrapper_defs sample_fields sample_kernel_def
      PROT_WRITE_def PROT_READ_def word_sless_alt)




end
